theory Spec2Isabelle
  imports Main
begin

section \<open>Bytes and strings\<close>

text \<open>
  A Go string is a sequence of bytes. The type \<^typ>\<open>string\<close> is a list of 8-bit
  characters, so \<^const>\<open>length\<close> is Go's \<^verbatim>\<open>len\<close> and a character beyond ASCII
  is the several bytes of its UTF-8 encoding.
\<close>

definition byte :: "char \<Rightarrow> int" where
  "byte c = of_char c"

definition newline :: char where
  "newline = CHR 0x0A"

definition isDigit :: "char \<Rightarrow> bool" where
  "isDigit c \<longleftrightarrow> 48 \<le> byte c \<and> byte c \<le> 57"

definition isLowerAZ :: "char \<Rightarrow> bool" where
  "isLowerAZ c \<longleftrightarrow> 97 \<le> byte c \<and> byte c \<le> 122"

definition isUpperAZ :: "char \<Rightarrow> bool" where
  "isUpperAZ c \<longleftrightarrow> 65 \<le> byte c \<and> byte c \<le> 90"

text \<open>The character class \<^verbatim>\<open>[0-9a-fA-F]\<close>.\<close>

definition isHex :: "char \<Rightarrow> bool" where
  "isHex c \<longleftrightarrow>
     isDigit c \<or> (97 \<le> byte c \<and> byte c \<le> 102) \<or> (65 \<le> byte c \<and> byte c \<le> 70)"

text \<open>The character class \<^verbatim>\<open>\s\<close> of Go's regular expressions: tab, newline, form
  feed, carriage return and space (the vertical tab is not in it).\<close>

definition isReSpace :: "char \<Rightarrow> bool" where
  "isReSpace c \<longleftrightarrow>
     byte c = 9 \<or> byte c = 10 \<or> byte c = 12 \<or> byte c = 13 \<or> byte c = 32"

text \<open>A byte below \<^verbatim>\<open>utf8.RuneSelf\<close> (0x80) is a character of its own.\<close>

definition isASCII :: "char \<Rightarrow> bool" where
  "isASCII c \<longleftrightarrow> byte c < 128"

text \<open>The table \<^verbatim>\<open>asciiSpace\<close> of package strings: tab, newline, vertical tab, form
  feed, carriage return, space.\<close>

definition asciiSpace :: "char \<Rightarrow> bool" where
  "asciiSpace c \<longleftrightarrow> (9 \<le> byte c \<and> byte c \<le> 13) \<or> byte c = 32"


section \<open>The standard library functions the program calls\<close>

text \<open>
  The outcome of a call: \<^verbatim>\<open>log.Fatal\<close> prints and ends the process with
  \<^verbatim>\<open>os.Exit(1)\<close>, a \<^verbatim>\<open>panic\<close> (raised by the program, by an index or by a
  slice out of range) unwinds it, and otherwise the call returns.
\<close>

datatype 'a outcome = Returned 'a | Fatal | Panicked

definition andThen :: "'a outcome \<Rightarrow> ('a \<Rightarrow> 'b outcome) \<Rightarrow> 'b outcome" where
  "andThen m f = (case m of Returned x \<Rightarrow> f x | Fatal \<Rightarrow> Fatal | Panicked \<Rightarrow> Panicked)"

text \<open>The index expression \<^verbatim>\<open>xs[i]\<close> and the slice expression \<^verbatim>\<open>s[:n]\<close>; both
  panic out of range.\<close>

definition indexAt :: "'a list \<Rightarrow> int \<Rightarrow> 'a outcome" where
  "indexAt xs i = (if 0 \<le> i \<and> i < int (length xs) then Returned (xs ! nat i) else Panicked)"

definition sliceTo :: "string \<Rightarrow> nat \<Rightarrow> string outcome" where
  "sliceTo s n = (if n \<le> length s then Returned (take n s) else Panicked)"

subsection \<open>strings.ToUpper and strings.TrimSpace\<close>

text \<open>
  Both functions have a path for strings of ASCII bytes and fall back on the Unicode
  tables when they meet a byte from 0x80 on. The tables belong to the Go distribution,
  not to this repository: the fall-backs are parameters of the model.
  \<^item> \<^verbatim>\<open>mapToUpper s\<close> stands for \<^verbatim>\<open>strings.Map(unicode.ToUpper, s)\<close>,
  \<^item> \<^verbatim>\<open>trimFuncSpace s\<close> for \<^verbatim>\<open>strings.TrimFunc(s, unicode.IsSpace)\<close>,
  \<^item> \<^verbatim>\<open>trimRightFuncSpace s\<close> for \<^verbatim>\<open>strings.TrimRightFunc(s, unicode.IsSpace)\<close>.
\<close>

record unicode =
  mapToUpper :: "string \<Rightarrow> string"
  trimFuncSpace :: "string \<Rightarrow> string"
  trimRightFuncSpace :: "string \<Rightarrow> string"

text \<open>On an ASCII input the tables are never consulted; the evaluations on concrete ASCII
  inputs below are run with this instance.\<close>

definition noTables :: unicode where
  "noTables = \<lparr> mapToUpper = (\<lambda>s. s), trimFuncSpace = (\<lambda>s. s), trimRightFuncSpace = (\<lambda>s. s) \<rparr>"

definition upperByte :: "char \<Rightarrow> char" where
  "upperByte c = (if isLowerAZ c then char_of (byte c - 32) else c)"

text \<open>\<^verbatim>\<open>strings.ToUpper\<close>: an ASCII string without a lower-case letter is returned as
  it is, an ASCII string with one is mapped byte by byte (\<^verbatim>\<open>c -= 'a' - 'A'\<close>).\<close>

definition ToUpper :: "unicode \<Rightarrow> string \<Rightarrow> string" where
  "ToUpper U s =
     (if list_all isASCII s
      then (if \<not> list_ex isLowerAZ s then s else map upperByte s)
      else mapToUpper U s)"

text \<open>\<^verbatim>\<open>strings.TrimSpace\<close>: the first loop skips ASCII space from the left, the second
  from the right (\<^verbatim>\<open>trimTail\<close> reads the rest of the string backwards).\<close>

fun trimTail :: "unicode \<Rightarrow> string \<Rightarrow> string" where
  "trimTail U [] = []"
| "trimTail U (c # r) =
     (if \<not> isASCII c then trimRightFuncSpace U (rev (c # r))
      else if asciiSpace c then trimTail U r
      else rev (c # r))"

fun TrimSpace :: "unicode \<Rightarrow> string \<Rightarrow> string" where
  "TrimSpace U [] = []"
| "TrimSpace U (c # s) =
     (if \<not> isASCII c then trimFuncSpace U (c # s)
      else if asciiSpace c then TrimSpace U s
      else trimTail U (rev (c # s)))"

subsection \<open>strconv.ParseInt\<close>

datatype numError = ErrSyntax | ErrRange

text \<open>The value of a digit: \<^verbatim>\<open>'0'..'9'\<close>, and a letter (lower-cased) counts from 10.\<close>

definition digitVal :: "char \<Rightarrow> int option" where
  "digitVal c =
     (if isDigit c then Some (byte c - 48)
      else if isLowerAZ c then Some (byte c - 97 + 10)
      else if isUpperAZ c then Some (byte c - 65 + 10)
      else None)"

text \<open>
  The loop of \<^verbatim>\<open>strconv.ParseUint\<close> for an explicit base (2 to 36: no prefix, no
  underscores) with the value read so far. \<^verbatim>\<open>n\<close> is a \<^verbatim>\<open>uint64\<close>: below the cutoff
  \<^verbatim>\<open>maxUint64/base + 1\<close> the product \<^verbatim>\<open>n*base\<close> does not wrap, and the sum wraps
  exactly when it reaches \<open>2 ^ 64\<close>.
\<close>

fun parseDigits :: "int \<Rightarrow> nat \<Rightarrow> int \<Rightarrow> string \<Rightarrow> numError + int" where
  "parseDigits base bitSize n [] = Inr n"
| "parseDigits base bitSize n (c # s) =
     (case digitVal c of
        None \<Rightarrow> Inl ErrSyntax
      | Some d \<Rightarrow>
          if d \<ge> base then Inl ErrSyntax
          else if n \<ge> (2 ^ 64 - 1) div base + 1 then Inl ErrRange
          else if n * base + d \<ge> 2 ^ 64 \<or> n * base + d > 2 ^ bitSize - 1 then Inl ErrRange
          else parseDigits base bitSize (n * base + d) s)"

definition ParseUint :: "string \<Rightarrow> int \<Rightarrow> nat \<Rightarrow> numError + int" where
  "ParseUint s base bitSize = (if s = [] then Inl ErrSyntax else parseDigits base bitSize 0 s)"

text \<open>\<^verbatim>\<open>strconv.ParseInt(s, base, bitSize)\<close> for an explicit base and a bit size from 1
  to 64: an optional sign, then the digits, then the range of a signed integer of that
  size.\<close>

definition ParseInt :: "string \<Rightarrow> int \<Rightarrow> nat \<Rightarrow> numError + int" where
  "ParseInt s base bitSize =
     (case s of
        [] \<Rightarrow> Inl ErrSyntax
      | c # s' \<Rightarrow>
          let neg = (c = CHR ''-'');
              digits = (if c = CHR ''+'' \<or> c = CHR ''-'' then s' else s);
              cutoff = 2 ^ (bitSize - 1)
          in (case ParseUint digits base bitSize of
                Inl e \<Rightarrow> Inl e
              | Inr un \<Rightarrow>
                  if \<not> neg \<and> un \<ge> cutoff then Inl ErrRange
                  else if neg \<and> un > cutoff then Inl ErrRange
                  else Inr (if neg then - un else un)))"


section \<open>Regular expressions\<close>

text \<open>
  The part of Go's syntax the program's patterns are written in: character classes,
  concatenation, counted repetition, the greedy star of a class, capturing groups and
  the line anchors of multi-line mode.

  Go matches the characters of the UTF-8 text, the model its bytes. The classes of the
  program's patterns hold ASCII characters only, or every character but some ASCII
  ones; a character beyond ASCII is a sequence of bytes from 0x80 on, so a class has
  the character exactly when it has each of its bytes, and the matches are the same.
\<close>

datatype re =
    Cls "char \<Rightarrow> bool"
  | Eps
  | Cat re re
  | Rep nat re
  | Star "char \<Rightarrow> bool"
  | Grp nat re
  | Bol
  | Eol

text \<open>A position of a match in progress: the byte before it (none at the start of the
  text), the text from it on, and the groups captured so far.\<close>

type_synonym captures = "nat \<Rightarrow> string option"
type_synonym mstate = "char option \<times> string \<times> captures"

primrec iter :: "nat \<Rightarrow> ('a \<Rightarrow> 'a list) \<Rightarrow> 'a \<Rightarrow> 'a list" where
  "iter 0 f x = [x]"
| "iter (Suc n) f x = concat (map (iter n f) (f x))"

fun star :: "(char \<Rightarrow> bool) \<Rightarrow> char option \<Rightarrow> captures \<Rightarrow> string \<Rightarrow> mstate list" where
  "star p b cs [] = [(b, [], cs)]"
| "star p b cs (c # s) = (if p c then star p (Some c) cs s else []) @ [(b, c # s, cs)]"

text \<open>
  \<^verbatim>\<open>ms r st\<close> lists the positions where a match of \<^verbatim>\<open>r\<close> begun at \<^verbatim>\<open>st\<close> can end,
  in the order a backtracking search tries them: a greedy star tries the longest run
  first. Go's package regexp returns the leftmost match and, among the matches that begin
  there, the one a backtracking search finds first: the head of this list.
\<close>

primrec ms :: "re \<Rightarrow> mstate \<Rightarrow> mstate list" where
  "ms (Cls p) st =
     (case st of (b, s, cs) \<Rightarrow>
        (case s of [] \<Rightarrow> [] | c # s' \<Rightarrow> if p c then [(Some c, s', cs)] else []))"
| "ms Eps st = [st]"
| "ms (Cat r1 r2) st = concat (map (ms r2) (ms r1 st))"
| "ms (Rep n r) st = iter n (ms r) st"
| "ms (Star p) st = (case st of (b, s, cs) \<Rightarrow> star p b cs s)"
| "ms (Grp i r) st =
     map (\<lambda>st'. case st' of (b', s', cs') \<Rightarrow>
            (b', s', cs'(i \<mapsto> take (length (fst (snd st)) - length s') (fst (snd st)))))
         (ms r st)"
| "ms Bol st =
     (case st of (b, s, cs) \<Rightarrow> if b = None \<or> b = Some newline then [st] else [])"
| "ms Eol st =
     (case st of (b, s, cs) \<Rightarrow>
        (case s of [] \<Rightarrow> [st] | c # _ \<Rightarrow> if c = newline then [st] else []))"

definition cat :: "re list \<Rightarrow> re" where
  "cat rs = foldr Cat rs Eps"

definition lit :: "string \<Rightarrow> re" where
  "lit s = cat (map (\<lambda>c. Cls (\<lambda>x. x = c)) s)"

definition plusCls :: "(char \<Rightarrow> bool) \<Rightarrow> re" where
  "plusCls p = Cat (Cls p) (Star p)"

text \<open>A match of the whole pattern that begins at a given position: its length and its
  groups.\<close>

definition matchAt :: "re \<Rightarrow> char option \<Rightarrow> string \<Rightarrow> (nat \<times> captures) option" where
  "matchAt r b s =
     (case ms r (b, s, Map.empty) of
        [] \<Rightarrow> None
      | (b', s', cs) # _ \<Rightarrow> Some (length s - length s', cs))"

text \<open>The leftmost match at or after the position: the number of bytes before it, its
  length and its groups.\<close>

fun doExecute :: "re \<Rightarrow> char option \<Rightarrow> string \<Rightarrow> (nat \<times> nat \<times> captures) option" where
  "doExecute r b [] =
     (case matchAt r b [] of None \<Rightarrow> None | Some (n, cs) \<Rightarrow> Some (0, n, cs))"
| "doExecute r b (c # s) =
     (case matchAt r b (c # s) of
        Some (n, cs) \<Rightarrow> Some (0, n, cs)
      | None \<Rightarrow>
          (case doExecute r (Some c) s of
             None \<Rightarrow> None
           | Some (k, n, cs) \<Rightarrow> Some (Suc k, n, cs)))"

lemma doExecute_bound: "doExecute r b s = Some (k, n, cs) \<Longrightarrow> k + n \<le> length s"
  by (induction s arbitrary: b k) (auto simp: matchAt_def split: option.splits list.splits)

text \<open>
  The loop of \<^verbatim>\<open>FindAll\<close> (\<^verbatim>\<open>allMatches\<close>) without a limit on the number of matches.
  \<^verbatim>\<open>off\<close> is the search position in the whole text, \<^verbatim>\<open>s\<close> the text from there on,
  \<^verbatim>\<open>atPrev\<close> says that the previous match ended at the search position.
  A match that is not empty is delivered and the search goes on at its end. An empty
  match at the search position is delivered unless it begins where the previous match
  ended, and the search moves on by one character (one byte here; the patterns of this
  program match no empty string, see \<open>matchAt_minLen\<close>).
\<close>

function allMatches :: "re \<Rightarrow> nat \<Rightarrow> bool \<Rightarrow> char option \<Rightarrow> string \<Rightarrow> (nat \<times> captures) list" where
  "allMatches r off atPrev b s =
     (case doExecute r b s of
        None \<Rightarrow> []
      | Some (k, n, cs) \<Rightarrow>
          if k = 0 \<and> n = 0
          then (if atPrev then [] else [(off, cs)]) @
               (case s of [] \<Rightarrow> [] | c # s' \<Rightarrow> allMatches r (off + 1) False (Some c) s')
          else (off + k, cs) #
               allMatches r (off + k + n) True (Some (s ! (k + n - 1))) (drop (k + n) s))"
  by pat_completeness auto
termination
  by (relation "measure (\<lambda>(r, off, atPrev, b, s). length s)")
     (auto dest: doExecute_bound)

declare allMatches.simps [simp del]

text \<open>
  The loop of \<^verbatim>\<open>ReplaceAllString\<close> (\<^verbatim>\<open>replaceAll\<close>) for a replacement text without
  \<^verbatim>\<open>$\<close>. \<^verbatim>\<open>off\<close> is the search position, \<^verbatim>\<open>s\<close> the text from there on, and
  \<^verbatim>\<open>pending\<close> the text between the end of the last match and the search position,
  which is still to be copied. The text before a match is copied, then the replacement,
  but not for an empty match right after another match; the search goes on at the end of
  the match, and one character (one byte here) further after an empty match at the
  search position.
\<close>

function replaceAll :: "re \<Rightarrow> string \<Rightarrow> nat \<Rightarrow> string \<Rightarrow> char option \<Rightarrow> string \<Rightarrow> string" where
  "replaceAll r repl off pending b s =
     (case doExecute r b s of
        None \<Rightarrow> pending @ s
      | Some (k, n, cs) \<Rightarrow>
          pending @ take k s @
          (if 0 < length pending + k + n \<or> off + k = 0 then repl else []) @
          (if k = 0 \<and> n = 0
           then (case s of [] \<Rightarrow> [] | c # s' \<Rightarrow> replaceAll r repl (off + 1) [c] (Some c) s')
           else replaceAll r repl (off + k + n) [] (Some (s ! (k + n - 1))) (drop (k + n) s)))"
  by pat_completeness auto
termination
  by (relation "measure (\<lambda>(r, repl, off, pending, b, s). length s)")
     (auto dest: doExecute_bound)

declare replaceAll.simps [simp del]

text \<open>A compiled pattern: the expression (group 0 is the whole match) and the names of its
  groups, the empty name for a group without one.\<close>

record regexp =
  prog :: re
  subexpNames :: "string list"

fun indexOf :: "string \<Rightarrow> string list \<Rightarrow> int \<Rightarrow> int" where
  "indexOf name [] i = - 1"
| "indexOf name (s # ss) i = (if name = s then i else indexOf name ss (i + 1))"

definition SubexpIndex :: "regexp \<Rightarrow> string \<Rightarrow> int" where
  "SubexpIndex rx name = (if name \<noteq> [] then indexOf name (subexpNames rx) 0 else - 1)"

definition groupsOf :: "regexp \<Rightarrow> captures \<Rightarrow> string list" where
  "groupsOf rx cs =
     map (\<lambda>i. case cs i of None \<Rightarrow> [] | Some w \<Rightarrow> w) [0..<length (subexpNames rx)]"

text \<open>\<^verbatim>\<open>FindAllStringSubmatchIndex\<close> gives where each match begins, \<^verbatim>\<open>FindAllStringSubmatch\<close>
  (called with \<^verbatim>\<open>n = -1\<close>: every match) only the text of the groups.\<close>

definition FindAllIndexed :: "regexp \<Rightarrow> string \<Rightarrow> (nat \<times> string list) list" where
  "FindAllIndexed rx s =
     map (\<lambda>(off, cs). (off, groupsOf rx cs)) (allMatches (prog rx) 0 False None s)"

definition FindAllStringSubmatch :: "regexp \<Rightarrow> string \<Rightarrow> string list list" where
  "FindAllStringSubmatch rx s = map snd (FindAllIndexed rx s)"

definition ReplaceAllString :: "regexp \<Rightarrow> string \<Rightarrow> string \<Rightarrow> string" where
  "ReplaceAllString rx src repl = replaceAll (prog rx) repl 0 [] None src"


section \<open>The program\<close>

record OUIData =
  OUI :: string
  VendorName :: string
  VendorAlternateName :: string

text \<open>
  \<^verbatim>\<open>NewOUI\<close> returns the entry and an error. When the prefix does not parse,
  \<^verbatim>\<open>log.Fatal(err)\<close> ends the process: the \<^verbatim>\<open>return m, errors.New(...)\<close> after it is
  never reached.
\<close>

definition NewOUI :: "unicode \<Rightarrow> string \<Rightarrow> string \<Rightarrow> string \<Rightarrow> (OUIData \<times> string option) outcome" where
  "NewOUI U oui vendorName vendorAlternateName =
     (case ParseInt oui 16 48 of
        Inl err \<Rightarrow> Fatal
      | Inr _ \<Rightarrow>
          Returned (\<lparr> OUI = oui,
                      VendorName = TrimSpace U vendorName,
                      VendorAlternateName = TrimSpace U vendorAlternateName \<rparr>, None))"

text \<open>The functions below read or extend the package variable \<^verbatim>\<open>allOUIs\<close>; it is an
  argument of the model, and \<^verbatim>\<open>makeMACHashMap\<close> returns its new value.\<close>

definition ListOUIs :: "OUIData list \<Rightarrow> OUIData list" where
  "ListOUIs allOUIs = allOUIs"

fun GetOUI :: "unicode \<Rightarrow> OUIData list \<Rightarrow> string \<Rightarrow> OUIData option" where
  "GetOUI U [] oui = None"
| "GetOUI U (o1 # os) oui = (if OUI o1 = ToUpper U oui then Some o1 else GetOUI U os oui)"

text \<open>
  The pattern of \<^verbatim>\<open>makeMACHashMap\<close>:

  \<^verbatim>\<open>(?m)^([0-9a-fA-F]{2}(-[0-9a-fA-F]{2}){2})\s+\(hex\)\s+(?P<vendorName>.*)\n\<close>
  \<^verbatim>\<open>(?P<OUI>[0-9a-fA-F]{6})\s+\(base 16\)\s+(?P<vendorAlternateName>.*)$\<close>
\<close>

definition notNewline :: "char \<Rightarrow> bool" where
  "notNewline c \<longleftrightarrow> c \<noteq> newline"

definition ouiExp :: regexp where
  "ouiExp =
     \<lparr> prog =
         Grp 0 (cat
           [Bol,
            Grp 1 (cat [Rep 2 (Cls isHex),
                        Rep 2 (Grp 2 (cat [lit ''-'', Rep 2 (Cls isHex)]))]),
            plusCls isReSpace, lit ''(hex)'', plusCls isReSpace,
            Grp 3 (Star notNewline),
            Cls (\<lambda>c. c = newline),
            Grp 4 (Rep 6 (Cls isHex)),
            plusCls isReSpace, lit ''(base 16)'', plusCls isReSpace,
            Grp 5 (Star notNewline),
            Eol]),
       subexpNames = ['''', '''', '''', ''vendorName'', ''OUI'', ''vendorAlternateName''] \<rparr>"

text \<open>One turn of the loop over the matches: the state is the map \<^verbatim>\<open>results\<close> and the
  package variable \<^verbatim>\<open>allOUIs\<close>.\<close>

definition loadMatch ::
  "unicode \<Rightarrow> string list \<Rightarrow> (string \<rightharpoonup> OUIData) \<times> OUIData list
     \<Rightarrow> ((string \<rightharpoonup> OUIData) \<times> OUIData list) outcome" where
  "loadMatch U match st =
     (case st of (results, allOUIs) \<Rightarrow>
        andThen (indexAt match (SubexpIndex ouiExp ''OUI'')) (\<lambda>oui.
        andThen (indexAt match (SubexpIndex ouiExp ''vendorName'')) (\<lambda>vendor.
        andThen (indexAt match (SubexpIndex ouiExp ''vendorAlternateName'')) (\<lambda>vendorOtherName.
        andThen (NewOUI U oui vendor vendorOtherName) (\<lambda>(ouiEntry, err).
          if err \<noteq> None then Returned (results, allOUIs)
          else Returned (results(OUI ouiEntry \<mapsto> ouiEntry), allOUIs @ [ouiEntry]))))))"

fun loadMatches ::
  "unicode \<Rightarrow> string list list \<Rightarrow> (string \<rightharpoonup> OUIData) \<times> OUIData list
     \<Rightarrow> ((string \<rightharpoonup> OUIData) \<times> OUIData list) outcome" where
  "loadMatches U [] st = Returned st"
| "loadMatches U (match # matches) st =
     (case loadMatch U match st of
        Returned st' \<Rightarrow> loadMatches U matches st'
      | Fatal \<Rightarrow> Fatal
      | Panicked \<Rightarrow> Panicked)"

text \<open>\<^verbatim>\<open>makeMACHashMap\<close>: \<^verbatim>\<open>readFile\<close> is what \<^verbatim>\<open>os.ReadFile(fileName)\<close> gave, the
  content of the file or nothing on an error. The result is the map returned and the
  new value of \<^verbatim>\<open>allOUIs\<close>.\<close>

definition makeMACHashMap ::
  "unicode \<Rightarrow> string option \<Rightarrow> OUIData list \<Rightarrow> ((string \<rightharpoonup> OUIData) \<times> OUIData list) outcome" where
  "makeMACHashMap U readFile allOUIs =
     (case readFile of
        None \<Rightarrow> Panicked
      | Some text \<Rightarrow> loadMatches U (FindAllStringSubmatch ouiExp text) (Map.empty, allOUIs))"

text \<open>
  \<^verbatim>\<open>normalizeMac\<close>: the pattern is \<^verbatim>\<open>[^a-zA-Z0-9 ]+\<close>, one or more characters
  outside the class between the brackets; \<^verbatim>\<open>macClass\<close> is that class, the letters,
  the digits and the space. The class holds ASCII characters only, so every byte of a
  longer UTF-8 sequence is outside it. \<^verbatim>\<open>replaceAllMac mac\<close> is the value of
  \<^verbatim>\<open>mac\<close> after \<^verbatim>\<open>mac = r.ReplaceAllString(mac, "")\<close>.
\<close>

definition macClass :: "char \<Rightarrow> bool" where
  "macClass c \<longleftrightarrow> isLowerAZ c \<or> isUpperAZ c \<or> isDigit c \<or> c = CHR '' ''"

definition macExp :: regexp where
  "macExp = \<lparr> prog = Grp 0 (plusCls (\<lambda>c. \<not> macClass c)), subexpNames = [''''] \<rparr>"

definition replaceAllMac :: "string \<Rightarrow> string" where
  "replaceAllMac mac = ReplaceAllString macExp mac ''''"

definition normalizeMac :: "string \<Rightarrow> string \<times> string option" where
  "normalizeMac mac =
     (let mac' = replaceAllMac mac
      in if length mac' \<noteq> 12 then ('''', Some ''Incorrect format of MAC address'')
         else (mac', None))"

definition GetVendorFromMAC :: "unicode \<Rightarrow> OUIData list \<Rightarrow> string \<Rightarrow> string outcome" where
  "GetVendorFromMAC U allOUIs mac =
     (case normalizeMac mac of (macToFind, err) \<Rightarrow>
        if err \<noteq> None then Returned ''''
        else andThen (sliceTo macToFind 6) (\<lambda>prefix.
               (case GetOUI U allOUIs prefix of
                  Some macOUI \<Rightarrow> Returned (VendorName macOUI)
                | None \<Rightarrow> Returned '''')))"

section \<open>Notions used in the statements and proofs\<close>

text \<open>The text still to read and the groups of a position of a match.\<close>

definition rest :: "mstate \<Rightarrow> string" where
  "rest st = fst (snd st)"

definition caps :: "mstate \<Rightarrow> captures" where
  "caps st = snd (snd st)"

text \<open>The least number of bytes a match of an expression takes, and the groups that occur
  in it.\<close>

primrec minLen :: "re \<Rightarrow> nat" where
  "minLen (Cls p) = 1"
| "minLen Eps = 0"
| "minLen (Cat r1 r2) = minLen r1 + minLen r2"
| "minLen (Rep n r) = n * minLen r"
| "minLen (Star p) = 0"
| "minLen (Grp i r) = minLen r"
| "minLen Bol = 0"
| "minLen Eol = 0"

primrec grps :: "re \<Rightarrow> nat set" where
  "grps (Cls p) = {}"
| "grps Eps = {}"
| "grps (Cat r1 r2) = grps r1 \<union> grps r2"
| "grps (Rep n r) = grps r"
| "grps (Star p) = {}"
| "grps (Grp i r) = insert i (grps r)"
| "grps Bol = {}"
| "grps Eol = {}"

definition hex6 :: "string \<Rightarrow> bool" where
  "hex6 w \<longleftrightarrow> length w = 6 \<and> list_all isHex w"

text \<open>The validation of \<^verbatim>\<open>NewOUI\<close>: \<^verbatim>\<open>strconv.ParseInt(oui, 16, 48)\<close> returns no
  error.\<close>

definition prefixParses :: "string \<Rightarrow> bool" where
  "prefixParses oui = (case ParseInt oui 16 48 of Inl e \<Rightarrow> False | Inr v \<Rightarrow> True)"

text \<open>The entry the loop makes of a match: group 4 is \<^verbatim>\<open>OUI\<close>, group 3
  \<^verbatim>\<open>vendorName\<close>, group 5 \<^verbatim>\<open>vendorAlternateName\<close>.\<close>

definition entryOf :: "unicode \<Rightarrow> string list \<Rightarrow> OUIData" where
  "entryOf U match =
     \<lparr> OUI = match ! 4,
       VendorName = TrimSpace U (match ! 3),
       VendorAlternateName = TrimSpace U (match ! 5) \<rparr>"

definition validMatch :: "string list \<Rightarrow> bool" where
  "validMatch match \<longleftrightarrow> length match = 6 \<and> hex6 (match ! 4)"

text \<open>The map \<^verbatim>\<open>makeMACHashMap\<close> returns and the value of \<^verbatim>\<open>allOUIs\<close> after it, in
  a process that \<^verbatim>\<open>main\<close> starts on a file with the given content.\<close>

definition loadedMap :: "unicode \<Rightarrow> string \<Rightarrow> (string \<rightharpoonup> OUIData)" where
  "loadedMap U src =
     (case makeMACHashMap U (Some src) [] of
        Returned (results, allOUIs) \<Rightarrow> results
      | _ \<Rightarrow> Map.empty)"

definition loadedOUIs :: "unicode \<Rightarrow> string \<Rightarrow> OUIData list" where
  "loadedOUIs U src =
     (case makeMACHashMap U (Some src) [] of
        Returned (results, allOUIs) \<Rightarrow> allOUIs
      | _ \<Rightarrow> [])"

text \<open>An ASCII letter or digit.\<close>

definition isAlnum :: "char \<Rightarrow> bool" where
  "isAlnum c \<longleftrightarrow> isLowerAZ c \<or> isUpperAZ c \<or> isDigit c"

subsection \<open>Registry files used in the examples\<close>

text \<open>Two records in the layout of the IEEE registry file, with a record between them
  whose prefix is not hexadecimal.\<close>

definition sampleSource :: string where
  "sampleSource =
     ''AC-DE-48   (hex)  Private\<newline>ACDE48     (base 16)  Private\<newline>\<newline>'' @
     ''GG-GG-GG   (hex)  Bad\<newline>GGGGGG     (base 16)  Bad\<newline>\<newline>'' @
     ''00-22-72   (hex)  American Micro-Fuel\<newline>002272     (base 16)  American Micro-Fuel Device Corp.\<newline>''"

text \<open>A record whose prefix is written in lower case.\<close>

definition lowerSource :: string where
  "lowerSource = ''aa-bb-cc   (hex)  Acme\<newline>aabbcc     (base 16)  Acme Inc\<newline>''"

text \<open>Two records with one prefix.\<close>

definition dupSource :: string where
  "dupSource =
     ''AA-BB-CC   (hex)  First\<newline>AABBCC     (base 16)  First Inc\<newline>\<newline>'' @
     ''AA-BB-CC   (hex)  Second\<newline>AABBCC     (base 16)  Second Inc\<newline>''"

definition lowerDupSource :: string where
  "lowerDupSource =
     ''aa-bb-cc   (hex)  First\<newline>aabbcc     (base 16)  First Inc\<newline>\<newline>'' @
     ''aa-bb-cc   (hex)  Second\<newline>aabbcc     (base 16)  Second Inc\<newline>''"

text \<open>A record whose header line ends after the blank that follows \<^verbatim>\<open>(hex)\<close>.\<close>

definition namelessSource :: string where
  "namelessSource = ''AA-BB-CC (hex) \<newline>AABBCC (base 16) Nameless Inc\<newline>''"

text \<open>A record with nothing after \<^verbatim>\<open>(base 16)\<close> on its line, and a second record right
  below it.\<close>

definition runOnSource :: string where
  "runOnSource =
     ''AA-BB-CC (hex) Foo\<newline>AABBCC (base 16)\<newline>'' @
     ''DD-EE-FF (hex) Bar\<newline>DDEEFF (base 16) Bar Inc\<newline>''"

text \<open>The entry of the first record of \<open>sampleSource\<close>.\<close>

definition privateEntry :: OUIData where
  "privateEntry = \<lparr>OUI = ''ACDE48'', VendorName = ''Private'', VendorAlternateName = ''Private''\<rparr>"

section \<open>Facts about the library functions\<close>

subsection \<open>Six hexadecimal digits always parse\<close>

lemma byte_simps:
  "byte (CHR ''-'') = 45" "byte (CHR ''+'') = 43" "byte (CHR '' '') = 32" "byte newline = 10"
  by (simp_all add: byte_def newline_def)

lemma isHex_digitVal: "isHex c \<Longrightarrow> \<exists>d. digitVal c = Some d \<and> 0 \<le> d \<and> d < 16"
  unfolding isHex_def digitVal_def isDigit_def isLowerAZ_def isUpperAZ_def
  by auto

lemma isHex_not_sign: "isHex c \<Longrightarrow> c \<noteq> CHR ''-'' \<and> c \<noteq> CHR ''+''"
  unfolding isHex_def isDigit_def using byte_simps by auto

lemma parseDigits_hex:
  "list_all isHex s \<Longrightarrow> 0 \<le> n \<Longrightarrow> (n + 1) * 16 ^ length s \<le> 2 ^ 47
   \<Longrightarrow> \<exists>v. parseDigits 16 48 n s = Inr v \<and> 0 \<le> v \<and> v < 2 ^ 47"
proof (induction s arbitrary: n)
  case Nil
  then show ?case by simp
next
  case (Cons c s)
  from Cons.prems(1) obtain d where d: "digitVal c = Some d" "0 \<le> d" "d < 16"
    using isHex_digitVal by auto
  have p: "(1::int) \<le> 16 ^ length s" by simp
  have step: "(n * 16 + d + 1) * 16 ^ length s \<le> (n + 1) * 16 ^ length (c # s)"
  proof -
    have "n * 16 + d + 1 \<le> (n + 1) * 16" using d by simp
    then have "(n * 16 + d + 1) * 16 ^ length s \<le> ((n + 1) * 16) * 16 ^ length s"
      by (rule mult_right_mono) simp
    then show ?thesis by (simp add: mult.assoc)
  qed
  with Cons.prems(3) have le: "(n * 16 + d + 1) * 16 ^ length s \<le> 2 ^ 47" by linarith
  have "n * 16 + d + 1 \<le> (n * 16 + d + 1) * 16 ^ length s"
    using p Cons.prems(2) d(2) by (simp add: mult_le_cancel_left1)
  with le have small: "n * 16 + d + 1 \<le> 2 ^ 47" by linarith
  have ih: "\<exists>v. parseDigits 16 48 (n * 16 + d) s = Inr v \<and> 0 \<le> v \<and> v < 2 ^ 47"
    using Cons.IH [of "n * 16 + d"] Cons.prems(1,2) d(2) le by simp
  from small Cons.prems(2) d(2) have "n < 1152921504606846976" by simp
  with small d ih show ?case by simp
qed

lemma ParseInt_hex6:
  assumes "length w = 6" "list_all isHex w"
  shows "\<exists>v. ParseInt w 16 48 = Inr v"
proof -
  from assms(1) obtain c s where w: "w = c # s" by (cases w) auto
  with assms(2) have c: "c \<noteq> CHR ''-''" "c \<noteq> CHR ''+''" using isHex_not_sign by auto
  have "(0 + 1) * (16::int) ^ length w \<le> 2 ^ 47" using assms(1) by simp
  then obtain v where v: "parseDigits 16 48 0 w = Inr v" "v < 2 ^ 47"
    using parseDigits_hex [OF assms(2), of 0] by auto
  then show ?thesis using w c by (simp add: ParseInt_def ParseUint_def)
qed

subsection \<open>Where a match can end and what it captures\<close>

lemma rest_simp [simp]: "rest (b, s, cs) = s"
  by (simp add: rest_def)

lemma caps_simp [simp]: "caps (b, s, cs) = cs"
  by (simp add: caps_def)

lemma star_mem:
  "st' \<in> set (star p b cs s) \<Longrightarrow> length (rest st') \<le> length s \<and> caps st' = cs"
  by (induction s arbitrary: b) (fastforce split: if_splits)+

lemma ms_Cls_mem:
  "st' \<in> set (ms (Cls p) st) \<Longrightarrow> \<exists>c. rest st = c # rest st' \<and> p c \<and> caps st' = caps st"
  by (cases st) (auto split: list.splits if_splits)

lemma ms_Star_mem:
  "st' \<in> set (ms (Star p) st) \<Longrightarrow> length (rest st') \<le> length (rest st) \<and> caps st' = caps st"
  using star_mem by (cases st) auto

lemma ms_Grp_mem:
  assumes "st' \<in> set (ms (Grp i r) st)"
  shows "\<exists>y \<in> set (ms r st). rest st' = rest y \<and>
      caps st' = (caps y)(i \<mapsto> take (length (rest st) - length (rest y)) (rest st))"
proof -
  from assms obtain y where y: "y \<in> set (ms r st)"
    and st': "st' = (case y of (b', s', cs') \<Rightarrow>
                (b', s', cs'(i \<mapsto> take (length (fst (snd st)) - length s') (fst (snd st)))))"
    by auto
  from st' have "rest st' = rest y \<and>
      caps st' = (caps y)(i \<mapsto> take (length (rest st) - length (rest y)) (rest st))"
    by (cases y) (simp add: rest_def caps_def)
  with y show ?thesis by blast
qed

lemma ms_Bol_mem: "st' \<in> set (ms Bol st) \<Longrightarrow> st' = st"
  by (cases st) (auto split: if_splits)

lemma ms_Eol_mem: "st' \<in> set (ms Eol st) \<Longrightarrow> st' = st"
  by (cases st) (auto split: list.splits if_splits)

lemma ms_Cat_mem:
  "st' \<in> set (ms (Cat r1 r2) st) \<Longrightarrow> \<exists>mid \<in> set (ms r1 st). st' \<in> set (ms r2 mid)"
  by auto

lemma iter_Suc_mem:
  "st' \<in> set (iter (Suc n) f st) \<Longrightarrow> \<exists>mid \<in> set (f st). st' \<in> set (iter n f mid)"
  by auto

lemma iter_minLen:
  assumes f: "\<And>st st'. st' \<in> set (f st) \<Longrightarrow> length (rest st') + m \<le> length (rest st)"
  shows "st' \<in> set (iter n f st) \<Longrightarrow> length (rest st') + n * m \<le> length (rest st)"
proof (induction n arbitrary: st)
  case 0
  then show ?case by simp
next
  case (Suc n)
  from iter_Suc_mem [OF Suc.prems] obtain mid
    where "mid \<in> set (f st)" "st' \<in> set (iter n f mid)" by blast
  with Suc.IH [of mid] f [of mid st] show ?case by simp
qed

lemma ms_minLen: "st' \<in> set (ms r st) \<Longrightarrow> length (rest st') + minLen r \<le> length (rest st)"
proof (induction r arbitrary: st st')
  case (Cls p)
  from ms_Cls_mem [OF Cls] show ?case by auto
next
  case Eps
  then show ?case by simp
next
  case (Cat r1 r2)
  from ms_Cat_mem [OF Cat.prems] obtain mid
    where "mid \<in> set (ms r1 st)" "st' \<in> set (ms r2 mid)" by blast
  with Cat.IH(1) [of mid st] Cat.IH(2) [of st' mid] show ?case by simp
next
  case (Rep n r)
  from Rep.prems have "st' \<in> set (iter n (ms r) st)" by simp
  from iter_minLen [of "ms r" "minLen r", OF Rep.IH this] show ?case by simp
next
  case (Star p)
  from ms_Star_mem [OF Star] show ?case by simp
next
  case (Grp i r)
  from ms_Grp_mem [OF Grp.prems] obtain y where "y \<in> set (ms r st)" "rest st' = rest y" by blast
  with Grp.IH [of y st] show ?case by simp
next
  case Bol
  from ms_Bol_mem [OF Bol] show ?case by simp
next
  case Eol
  from ms_Eol_mem [OF Eol] show ?case by simp
qed

lemma iter_caps:
  assumes f: "\<And>st st'. st' \<in> set (f st) \<Longrightarrow> caps st' i = caps st i"
  shows "st' \<in> set (iter n f st) \<Longrightarrow> caps st' i = caps st i"
proof (induction n arbitrary: st)
  case 0
  then show ?case by simp
next
  case (Suc n)
  from iter_Suc_mem [OF Suc.prems] obtain mid
    where "mid \<in> set (f st)" "st' \<in> set (iter n f mid)" by blast
  with Suc.IH [of mid] f [of mid st] show ?case by simp
qed

lemma ms_caps: "st' \<in> set (ms r st) \<Longrightarrow> i \<notin> grps r \<Longrightarrow> caps st' i = caps st i"
proof (induction r arbitrary: st st')
  case (Cls p)
  from ms_Cls_mem [OF Cls(1)] show ?case by auto
next
  case Eps
  then show ?case by simp
next
  case (Cat r1 r2)
  from ms_Cat_mem [OF Cat.prems(1)] obtain mid
    where "mid \<in> set (ms r1 st)" "st' \<in> set (ms r2 mid)" by blast
  with Cat.IH(1) [of mid st] Cat.IH(2) [of st' mid] Cat.prems(2) show ?case by simp
next
  case (Rep n r)
  from Rep.prems have m: "st' \<in> set (iter n (ms r) st)" and i: "i \<notin> grps r" by simp_all
  from iter_caps [of "ms r" i, OF Rep.IH [OF _ i] m] show ?case by simp
next
  case (Star p)
  from ms_Star_mem [OF Star(1)] show ?case by simp
next
  case (Grp j r)
  from ms_Grp_mem [OF Grp.prems(1)] obtain y where "y \<in> set (ms r st)"
    "caps st' = (caps y)(j \<mapsto> take (length (rest st) - length (rest y)) (rest st))" by blast
  with Grp.IH [of y st] Grp.prems(2) show ?case by simp
next
  case Bol
  from ms_Bol_mem [OF Bol(1)] show ?case by simp
next
  case Eol
  from ms_Eol_mem [OF Eol(1)] show ?case by simp
qed

lemma iter_Cls:
  "st' \<in> set (iter n (ms (Cls p)) st)
   \<Longrightarrow> \<exists>w. rest st = w @ rest st' \<and> length w = n \<and> list_all p w"
proof (induction n arbitrary: st)
  case 0
  then show ?case by simp
next
  case (Suc n)
  from iter_Suc_mem [OF Suc.prems] obtain mid
    where mid: "mid \<in> set (ms (Cls p) st)" "st' \<in> set (iter n (ms (Cls p)) mid)"
    by blast
  from ms_Cls_mem [OF mid(1)] obtain c where c: "rest st = c # rest mid" "p c"
    by blast
  from Suc.IH [OF mid(2)] obtain w where "rest mid = w @ rest st'" "length w = n" "list_all p w"
    by auto
  with c show ?case by (intro exI [of _ "c # w"]) simp
qed

lemma Grp_Rep_Cls:
  assumes "st' \<in> set (ms (Grp i (Rep n (Cls p))) st)"
  shows "\<exists>w. caps st' i = Some w \<and> length w = n \<and> list_all p w"
proof -
  from ms_Grp_mem [OF assms] obtain y where
    m: "y \<in> set (ms (Rep n (Cls p)) st)"
    and st': "caps st' = (caps y)(i \<mapsto> take (length (rest st) - length (rest y)) (rest st))"
    by blast
  from m have "y \<in> set (iter n (ms (Cls p)) st)" by simp
  from iter_Cls [OF this] obtain w where "rest st = w @ rest y" "length w = n" "list_all p w"
    by auto
  with st' show ?thesis by simp
qed

lemma ms_cat_Nil: "ms (cat []) st = [st]"
  by (simp add: cat_def)

lemma ms_cat_Cons: "ms (cat (r # rs)) st = concat (map (ms (cat rs)) (ms r st))"
  by (simp add: cat_def)

lemma ms_cat_append:
  "st' \<in> set (ms (cat (xs @ ys)) st) \<longleftrightarrow> (\<exists>mid \<in> set (ms (cat xs) st). st' \<in> set (ms (cat ys) mid))"
  by (induction xs arbitrary: st) (auto simp: ms_cat_Nil ms_cat_Cons)

lemma grps_cat: "grps (cat rs) = (\<Union>r \<in> set rs. grps r)"
  by (induction rs) (auto simp: cat_def)

lemma grps_lit: "grps (lit s) = {}"
  by (simp add: lit_def grps_cat)

lemma grps_plus: "grps (plusCls p) = {}"
  by (simp add: plusCls_def)

lemma minLen_cat: "minLen (cat rs) = sum_list (map minLen rs)"
  by (induction rs) (auto simp: cat_def)

lemma minLen_lit: "minLen (lit s) = length s"
  by (induction s) (auto simp: lit_def cat_def)

lemma minLen_plus: "minLen (plusCls p) = 1"
  by (simp add: plusCls_def)

lemma ouiExp_minLen: "minLen (prog ouiExp) = 33"
  by (simp add: ouiExp_def minLen_cat minLen_lit minLen_plus)

lemma matchAt_minLen: "matchAt r b s = Some (n, cs) \<Longrightarrow> minLen r \<le> n"
proof -
  assume "matchAt r b s = Some (n, cs)"
  then obtain b' s' where m: "(b', s', cs) \<in> set (ms r (b, s, Map.empty))"
    and n: "n = length s - length s'"
    by (auto simp: matchAt_def split: list.splits)
  from ms_minLen [OF m] n show ?thesis by simp
qed

lemma macExp_minLen: "minLen (prog macExp) = 1"
  by (simp add: macExp_def minLen_plus)

lemma ouiExp_group4:
  assumes "st' \<in> set (ms (prog ouiExp) st)"
  shows "\<exists>w. caps st' 4 = Some w \<and> hex6 w"
proof -
  define xs where "xs = [Bol,
            Grp 1 (cat [Rep 2 (Cls isHex),
                        Rep 2 (Grp 2 (cat [lit ''-'', Rep 2 (Cls isHex)]))]),
            plusCls isReSpace, lit ''(hex)'', plusCls isReSpace,
            Grp 3 (Star notNewline),
            Cls (\<lambda>c. c = newline)]"
  define ys where "ys = [plusCls isReSpace, lit ''(base 16)'', plusCls isReSpace,
            Grp 5 (Star notNewline), Eol]"
  have p: "prog ouiExp = Grp 0 (cat ((xs @ [Grp 4 (Rep 6 (Cls isHex))]) @ ys))"
    by (simp add: ouiExp_def xs_def ys_def)
  from assms have "st' \<in> set (ms (Grp 0 (cat ((xs @ [Grp 4 (Rep 6 (Cls isHex))]) @ ys))) st)"
    unfolding p .
  from ms_Grp_mem [OF this]
  obtain y where y: "y \<in> set (ms (cat ((xs @ [Grp 4 (Rep 6 (Cls isHex))]) @ ys)) st)"
    and c: "caps st' 4 = caps y 4"
    by auto
  from y obtain m where m: "m \<in> set (ms (cat (xs @ [Grp 4 (Rep 6 (Cls isHex))])) st)"
    and ym: "y \<in> set (ms (cat ys) m)"
    using ms_cat_append by blast
  from m obtain m0 where "m \<in> set (ms (cat [Grp 4 (Rep 6 (Cls isHex))]) m0)"
    using ms_cat_append by blast
  then have "m \<in> set (ms (Grp 4 (Rep 6 (Cls isHex))) m0)"
    by (simp add: ms_cat_Cons ms_cat_Nil del: ms.simps)
  from Grp_Rep_Cls [OF this] obtain w where w: "caps m 4 = Some w" "length w = 6" "list_all isHex w"
    by auto
  have "4 \<notin> grps (cat ys)"
    by (simp add: ys_def grps_cat grps_lit grps_plus)
  from ms_caps [OF ym this] w c show ?thesis by (simp add: hex6_def)
qed

lemma matchAt_ouiExp:
  assumes "matchAt (prog ouiExp) b s = Some (n, cs)"
  shows "0 < n \<and> (\<exists>w. cs 4 = Some w \<and> hex6 w)"
proof -
  from assms obtain b' s' where m: "(b', s', cs) \<in> set (ms (prog ouiExp) (b, s, Map.empty))"
    and n: "n = length s - length s'"
    by (auto simp: matchAt_def split: list.splits)
  from ms_minLen [OF m] have "length s' + 33 \<le> length s"
    by (simp add: ouiExp_minLen)
  with n have "0 < n" by simp
  moreover from ouiExp_group4 [OF m] have "\<exists>w. cs 4 = Some w \<and> hex6 w" by simp
  ultimately show ?thesis by simp
qed

lemma doExecute_ouiExp:
  "doExecute (prog ouiExp) b s = Some (k, n, cs) \<Longrightarrow> 0 < n \<and> (\<exists>w. cs 4 = Some w \<and> hex6 w)"
proof (induction s arbitrary: b k)
  case Nil
  then show ?case using matchAt_ouiExp by (auto split: option.splits)
next
  case (Cons c s)
  then show ?case using matchAt_ouiExp by (auto split: option.splits)
qed

lemma allMatches_props:
  assumes "\<And>b s k n cs. doExecute r b s = Some (k, n, cs) \<Longrightarrow> 0 < n \<and> P cs"
  shows "(\<forall>x \<in> set (allMatches r off atPrev b s). off \<le> fst x \<and> P (snd x)) \<and>
         sorted_wrt (<) (map fst (allMatches r off atPrev b s))"
  using assms
proof (induction r off atPrev b s rule: allMatches.induct)
  case (1 r off atPrev b s)
  show ?case
  proof (cases "doExecute r b s")
    case None
    then show ?thesis by (subst allMatches.simps, subst allMatches.simps) simp
  next
    case (Some x)
    obtain k n cs where x: "x = (k, n, cs)" by (cases x) auto
    with Some "1.prems" have n: "0 < n" and P: "P cs" by blast+
    have eq: "allMatches r off atPrev b s =
        (off + k, cs) # allMatches r (off + k + n) True (Some (s ! (k + n - 1))) (drop (k + n) s)"
      using Some x n by (subst allMatches.simps) simp
    have ih: "(\<forall>x \<in> set (allMatches r (off + k + n) True (Some (s ! (k + n - 1))) (drop (k + n) s)).
                off + k + n \<le> fst x \<and> P (snd x)) \<and>
         sorted_wrt (<) (map fst (allMatches r (off + k + n) True (Some (s ! (k + n - 1))) (drop (k + n) s)))"
      using "1.IH"(2) [OF Some] x n "1.prems" by simp
    show ?thesis
      unfolding eq using ih n P by fastforce
  qed
qed

section \<open>Facts about the loader\<close>

lemma SubexpIndex_ouiExp:
  "SubexpIndex ouiExp ''OUI'' = 4"
  "SubexpIndex ouiExp ''vendorName'' = 3"
  "SubexpIndex ouiExp ''vendorAlternateName'' = 5"
  by (simp_all add: SubexpIndex_def ouiExp_def)

lemma groupsOf_ouiExp:
  "length (groupsOf ouiExp cs) = 6"
  "cs 4 = Some w \<Longrightarrow> groupsOf ouiExp cs ! 4 = w"
  by (simp_all add: groupsOf_def ouiExp_def eval_nat_numeral)

lemma FindAllIndexed_ouiExp:
  "(\<forall>x \<in> set (FindAllIndexed ouiExp src). validMatch (snd x)) \<and>
   sorted_wrt (<) (map fst (FindAllIndexed ouiExp src))"
proof -
  let ?P = "\<lambda>cs. \<exists>w. cs 4 = Some w \<and> hex6 w"
  have a: "(\<forall>x \<in> set (allMatches (prog ouiExp) 0 False None src). 0 \<le> fst x \<and> ?P (snd x)) \<and>
         sorted_wrt (<) (map fst (allMatches (prog ouiExp) 0 False None src))"
    by (rule allMatches_props) (rule doExecute_ouiExp)
  have m: "map fst (FindAllIndexed ouiExp src) = map fst (allMatches (prog ouiExp) 0 False None src)"
    by (simp add: FindAllIndexed_def split_def comp_def)
  have "validMatch (snd x)" if "x \<in> set (FindAllIndexed ouiExp src)" for x
  proof -
    from that obtain off cs where oc: "(off, cs) \<in> set (allMatches (prog ouiExp) 0 False None src)"
      and x: "x = (off, groupsOf ouiExp cs)"
      by (auto simp: FindAllIndexed_def)
    from a oc obtain w where "cs 4 = Some w" "hex6 w" by fastforce
    with x groupsOf_ouiExp show ?thesis by (simp add: validMatch_def)
  qed
  with a m show ?thesis by simp
qed

lemma FindAllStringSubmatch_valid: "list_all validMatch (FindAllStringSubmatch ouiExp src)"
  using FindAllIndexed_ouiExp [of src] by (simp add: FindAllStringSubmatch_def list_all_iff)

lemma hex6_parses: "hex6 w \<Longrightarrow> prefixParses w"
  using ParseInt_hex6 [of w] by (auto simp: hex6_def prefixParses_def)

lemma loadMatch_valid:
  assumes "validMatch match"
  shows "loadMatch U match (results, allOUIs) =
           Returned (results(match ! 4 \<mapsto> entryOf U match), allOUIs @ [entryOf U match])"
proof -
  from assms have len: "length match = 6" and "hex6 (match ! 4)"
    by (simp_all add: validMatch_def)
  then obtain v where v: "ParseInt (match ! 4) 16 48 = Inr v"
    using ParseInt_hex6 by (auto simp: hex6_def)
  show ?thesis
    by (simp add: loadMatch_def SubexpIndex_ouiExp indexAt_def len andThen_def NewOUI_def v entryOf_def)
qed

lemma loadMatches_valid:
  "list_all validMatch matches \<Longrightarrow>
   \<exists>results'. loadMatches U matches (results, allOUIs) =
      Returned (results', allOUIs @ map (entryOf U) matches)"
proof (induction matches arbitrary: results allOUIs)
  case Nil
  then show ?case by simp
next
  case (Cons m matches)
  then have m: "validMatch m" and rest: "list_all validMatch matches" by simp_all
  from Cons.IH [OF rest] obtain r' where
    "loadMatches U matches (results(m ! 4 \<mapsto> entryOf U m), allOUIs @ [entryOf U m]) =
       Returned (r', (allOUIs @ [entryOf U m]) @ map (entryOf U) matches)"
    by blast
  then show ?case by (simp add: loadMatch_valid [OF m])
qed

subsection \<open>Deleting the matches of a class\<close>

lemma star_head: "\<exists>b' xs. star p b cs s = (b', dropWhile p s, cs) # xs"
  by (induction s arbitrary: b) (auto, metis append_Cons)

lemma len_takeWhile: "length s - length (dropWhile q s) = length (takeWhile q s)"
proof -
  have "length (takeWhile q s) + length (dropWhile q s) = length s"
    by (metis length_append takeWhile_dropWhile_id)
  then show ?thesis by simp
qed

lemma take_takeWhile: "take (length (takeWhile q s)) s = takeWhile q s"
  by (metis append_eq_conv_conj takeWhile_dropWhile_id)

lemma matchAt_plusCls:
  "matchAt (Grp 0 (plusCls q)) b s =
     (if s \<noteq> [] \<and> q (hd s) then Some (length (takeWhile q s), [0 \<mapsto> takeWhile q s]) else None)"
proof (cases s)
  case Nil
  then show ?thesis by (simp add: matchAt_def plusCls_def)
next
  case (Cons c s')
  show ?thesis
  proof (cases "q c")
    case False
    with Cons show ?thesis by (simp add: matchAt_def plusCls_def)
  next
    case True
    obtain b' xs where st: "star q (Some c) Map.empty s' = (b', dropWhile q s', Map.empty) # xs"
      using star_head by blast
    from True have d: "dropWhile q s' = dropWhile q s" by (simp add: Cons)
    have "ms (Grp 0 (plusCls q)) (b, s, Map.empty) =
          map (\<lambda>st'. case st' of (b', s'', cs') \<Rightarrow>
                 (b', s'', cs'(0 \<mapsto> take (length s - length s'') s)))
              (star q (Some c) Map.empty s')"
      using True by (simp add: plusCls_def Cons)
    then have "matchAt (Grp 0 (plusCls q)) b s =
          Some (length s - length (dropWhile q s),
                [0 \<mapsto> take (length s - length (dropWhile q s)) s])"
      unfolding matchAt_def st d by simp
    then show ?thesis
      using True Cons by (simp only: len_takeWhile take_takeWhile) simp
  qed
qed

lemma doExecute_plusCls_None:
  "\<not> (\<exists>c \<in> set s. q c) \<Longrightarrow> doExecute (Grp 0 (plusCls q)) b s = None"
  by (induction s arbitrary: b) (simp_all add: matchAt_plusCls)

lemma doExecute_plusCls_Some:
  "\<exists>c \<in> set s. q c \<Longrightarrow>
   \<exists>cs. doExecute (Grp 0 (plusCls q)) b s =
     Some (length (takeWhile (\<lambda>c. \<not> q c) s),
           length (takeWhile q (dropWhile (\<lambda>c. \<not> q c) s)), cs)"
proof (induction s arbitrary: b)
  case Nil
  then show ?case by simp
next
  case (Cons c s)
  show ?case
  proof (cases "q c")
    case True
    then show ?thesis by (simp add: matchAt_plusCls)
  next
    case False
    with Cons.prems have "\<exists>c \<in> set s. q c" by simp
    from Cons.IH [OF this, of "Some c"] obtain cs where
      "doExecute (Grp 0 (plusCls q)) (Some c) s =
         Some (length (takeWhile (\<lambda>c. \<not> q c) s),
               length (takeWhile q (dropWhile (\<lambda>c. \<not> q c) s)), cs)"
      by blast
    with False show ?thesis by (simp add: matchAt_plusCls)
  qed
qed

text \<open>Replacing every run of characters of a class by the empty text leaves the
  characters outside the class.\<close>

lemma replaceAll_plusCls:
  "replaceAll (Grp 0 (plusCls q)) [] off [] b s = filter (\<lambda>c. \<not> q c) s"
proof (induction "length s" arbitrary: off b s rule: less_induct)
  case less
  let ?k = "length (takeWhile (\<lambda>c. \<not> q c) s)"
  let ?d = "dropWhile (\<lambda>c. \<not> q c) s"
  let ?n = "length (takeWhile q ?d)"
  show ?case
  proof (cases "\<exists>c \<in> set s. q c")
    case False
    then have "filter (\<lambda>c. \<not> q c) s = s" by (auto intro: filter_True)
    with False show ?thesis
      by (subst replaceAll.simps) (simp add: doExecute_plusCls_None)
  next
    case True
    then have "?d \<noteq> []" by (simp add: dropWhile_eq_Nil_conv)
    then have hd: "q (hd ?d)" using hd_dropWhile [of "\<lambda>c. \<not> q c" s] by simp
    with \<open>?d \<noteq> []\<close> have n: "0 < ?n" by (cases ?d) auto
    have dr: "drop (?k + ?n) s = dropWhile q ?d"
    proof -
      have "drop ?k s = ?d" by (simp add: dropWhile_eq_drop)
      moreover have "drop ?n ?d = dropWhile q ?d" by (simp add: dropWhile_eq_drop)
      ultimately show ?thesis by (metis add.commute drop_drop)
    qed
    have tk: "take ?k s = takeWhile (\<lambda>c. \<not> q c) s" by (rule take_takeWhile)
    have shorter: "length (dropWhile q ?d) < length s"
    proof -
      have "length (dropWhile q ?d) + ?n = length ?d"
        by (metis add.commute length_append takeWhile_dropWhile_id)
      moreover have "length ?d \<le> length s" by (rule length_dropWhile_le)
      ultimately show ?thesis using n by linarith
    qed
    have split: "filter (\<lambda>c. \<not> q c) s =
        takeWhile (\<lambda>c. \<not> q c) s @ filter (\<lambda>c. \<not> q c) (dropWhile q ?d)"
    proof -
      have "s = takeWhile (\<lambda>c. \<not> q c) s @ takeWhile q ?d @ dropWhile q ?d" by simp
      then have "filter (\<lambda>c. \<not> q c) s =
          filter (\<lambda>c. \<not> q c) (takeWhile (\<lambda>c. \<not> q c) s) @
          filter (\<lambda>c. \<not> q c) (takeWhile q ?d) @
          filter (\<lambda>c. \<not> q c) (dropWhile q ?d)"
        by (metis filter_append)
      moreover have "filter (\<lambda>c. \<not> q c) (takeWhile (\<lambda>c. \<not> q c) s) = takeWhile (\<lambda>c. \<not> q c) s"
        by (rule filter_True) (auto dest: set_takeWhileD)
      moreover have "filter (\<lambda>c. \<not> q c) (takeWhile q ?d) = []"
        by (auto simp: filter_empty_conv dest: set_takeWhileD)
      ultimately show ?thesis by simp
    qed
    from doExecute_plusCls_Some [OF True, of b] obtain cs where
      ex: "doExecute (Grp 0 (plusCls q)) b s = Some (?k, ?n, cs)" by blast
    have "replaceAll (Grp 0 (plusCls q)) [] off [] b s =
        take ?k s @ replaceAll (Grp 0 (plusCls q)) [] (off + ?k + ?n) []
          (Some (s ! (?k + ?n - 1))) (drop (?k + ?n) s)"
      using n by (subst replaceAll.simps) (simp add: ex)
    also have "\<dots> = takeWhile (\<lambda>c. \<not> q c) s @ filter (\<lambda>c. \<not> q c) (dropWhile q ?d)"
      unfolding dr tk using less [OF shorter] by simp
    finally show ?thesis using split by simp
  qed
qed

lemma replaceAllMac_filter: "replaceAllMac mac = filter macClass mac"
  by (simp add: replaceAllMac_def ReplaceAllString_def macExp_def replaceAll_plusCls)


section \<open>Facts about the program\<close>

lemma makeMACHashMap_returns:
  "\<exists>results. makeMACHashMap U (Some src) allOUIs =
     Returned (results, allOUIs @ map (entryOf U) (FindAllStringSubmatch ouiExp src))"
  using loadMatches_valid [OF FindAllStringSubmatch_valid, of U src Map.empty allOUIs]
  by (simp add: makeMACHashMap_def)

lemma makeMACHashMap_loaded:
  "makeMACHashMap U (Some src) [] = Returned (loadedMap U src, loadedOUIs U src)"
  using makeMACHashMap_returns [of U src "[]"] by (auto simp: loadedMap_def loadedOUIs_def)

lemma loadedOUIs_entries:
  "loadedOUIs U src = map (entryOf U) (FindAllStringSubmatch ouiExp src)"
  using makeMACHashMap_returns [of U src "[]"] by (auto simp: loadedOUIs_def)

lemma find_app:
  "find P (xs @ ys) = (case find P xs of None \<Rightarrow> find P ys | Some x \<Rightarrow> Some x)"
  by (induction xs) auto

text \<open>The map holds, for a prefix, the entry of the last match with that prefix.\<close>

lemma loadMatches_results:
  assumes "list_all validMatch matches"
    and "loadMatches U matches (results, allOUIs) = Returned (results', allOUIs')"
  shows "results' p =
     (case find (\<lambda>e. OUI e = p) (rev (map (entryOf U) matches)) of
        Some e \<Rightarrow> Some e
      | None \<Rightarrow> results p)"
  using assms
proof (induction matches arbitrary: results allOUIs)
  case Nil
  then show ?case by simp
next
  case (Cons m matches)
  then have m: "validMatch m" and rest: "list_all validMatch matches" by simp_all
  from Cons.prems(2) have
    "loadMatches U matches (results(m ! 4 \<mapsto> entryOf U m), allOUIs @ [entryOf U m]) =
       Returned (results', allOUIs')"
    by (simp add: loadMatch_valid [OF m])
  from Cons.IH [OF rest this] show ?case
    by (auto simp: find_app entryOf_def split: option.splits)
qed

lemma loadedMap_last_wins:
  "loadedMap U src p = find (\<lambda>e. OUI e = p) (rev (loadedOUIs U src))"
proof -
  have "loadMatches U (FindAllStringSubmatch ouiExp src) (Map.empty, []) =
          Returned (loadedMap U src, loadedOUIs U src)"
    using makeMACHashMap_loaded [of U src] by (simp add: makeMACHashMap_def)
  from loadMatches_results [OF FindAllStringSubmatch_valid this, of p]
  show ?thesis by (simp add: loadedOUIs_entries split: option.splits)
qed

lemma upperByte_id: "\<not> isLowerAZ c \<Longrightarrow> upperByte c = c"
  by (simp add: upperByte_def)

lemma ToUpper_ascii: "list_all isASCII s \<Longrightarrow> ToUpper U s = map upperByte s"
  by (auto simp: ToUpper_def list_ex_iff upperByte_id intro!: map_idI [symmetric])

lemma macClass_ascii: "macClass c \<Longrightarrow> isASCII c"
  unfolding macClass_def isASCII_def isLowerAZ_def isUpperAZ_def isDigit_def
  by (auto simp: byte_simps)

text \<open>\<^verbatim>\<open>GetOUI\<close> returns the first entry whose prefix is the upper-cased argument.\<close>

lemma GetOUI_find: "GetOUI U xs q = find (\<lambda>o1. OUI o1 = ToUpper U q) xs"
  by (induction xs) auto

lemma GetOUI_finds_upper_case_prefix:
  assumes "e \<in> set allOUIs" and "ToUpper U q = OUI e"
  shows "\<exists>e'. GetOUI U allOUIs q = Some e' \<and> OUI e' = OUI e"
  using assms by (induction allOUIs) auto

lemma upperByte_not_lower: "\<not> isLowerAZ (upperByte c)"
  by (auto simp: upperByte_def isLowerAZ_def byte_def)

text \<open>An entry whose prefix has a lower-case letter is returned for no ASCII argument.\<close>

lemma GetOUI_never_lower_case_prefix:
  assumes "list_ex isLowerAZ (OUI e)" and "list_all isASCII q"
  shows "GetOUI U allOUIs q \<noteq> Some e"
proof
  assume "GetOUI U allOUIs q = Some e"
  then have "OUI e = ToUpper U q"
    by (induction allOUIs) (auto split: if_splits)
  with assms(2) have "OUI e = map upperByte q" by (simp add: ToUpper_ascii)
  with assms(1) show False by (auto simp: list_ex_iff upperByte_not_lower)
qed

lemma ToUpper_examples:
  "ToUpper U ''aabbcc'' = ''AABBCC''" "ToUpper U ''AABBCC'' = ''AABBCC''"
  by code_simp+

lemma replaceAllMac_examples:
  "replaceAllMac ''AA-BB-CC-11-22-33'' = ''AABBCC112233''"
  "replaceAllMac ''aa:bb:cc:11:22:33'' = ''aabbcc112233''"
  "replaceAllMac ''AABBCC112233'' = ''AABBCC112233''"
  by code_simp+

lemma GetVendorFromMAC_12:
  assumes "length (replaceAllMac mac) = 12"
  shows "GetVendorFromMAC U allOUIs mac =
    Returned (case GetOUI U allOUIs (take 6 (replaceAllMac mac)) of
                Some e \<Rightarrow> VendorName e | None \<Rightarrow> '''')"
  using assms
  by (simp add: GetVendorFromMAC_def normalizeMac_def sliceTo_def andThen_def Let_def
      split: option.splits)

text \<open>The prefix candidate of an address is ASCII, so its upper-case form does not depend
  on the Unicode tables.\<close>

lemma candidate_upper:
  "ToUpper U (take 6 (replaceAllMac mac)) = map upperByte (take 6 (replaceAllMac mac))"
  by (rule ToUpper_ascii)
     (auto simp: replaceAllMac_filter list_all_iff macClass_ascii dest: in_set_takeD)

text \<open>An address of eleven letters and digits and one space has the normalized length 12
  and is resolved by its first six characters.\<close>

lemma address_with_space_resolves:
  "GetVendorFromMAC noTables
     [\<lparr>OUI = ''AABBCC'', VendorName = ''Acme'', VendorAlternateName = ''Acme Inc''\<rparr>]
     ''AABBCC 11223'' = Returned ''Acme''"
  by code_simp

lemma TrimSpace_blank: "list_all asciiSpace s \<Longrightarrow> TrimSpace U s = []"
  by (induction s) (auto simp: asciiSpace_def isASCII_def)

subsection \<open>The registry files of the examples, loaded\<close>

lemma sampleSource_loaded:
  "loadedOUIs noTables sampleSource =
     [\<lparr>OUI = ''ACDE48'', VendorName = ''Private'', VendorAlternateName = ''Private''\<rparr>,
      \<lparr>OUI = ''002272'', VendorName = ''American Micro-Fuel'',
         VendorAlternateName = ''American Micro-Fuel Device Corp.''\<rparr>]"
  by code_simp

lemma namelessSource_loaded:
  "loadedOUIs noTables namelessSource =
     [\<lparr>OUI = ''AABBCC'', VendorName = '''', VendorAlternateName = ''Nameless Inc''\<rparr>]"
  by code_simp

text \<open>Two records with one prefix in upper case: both are listed, the map holds the
  second and \<^verbatim>\<open>GetOUI\<close> returns the first.\<close>

lemma upper_case_duplicates:
  "ListOUIs (loadedOUIs noTables dupSource) =
     [\<lparr>OUI = ''AABBCC'', VendorName = ''First'', VendorAlternateName = ''First Inc''\<rparr>,
      \<lparr>OUI = ''AABBCC'', VendorName = ''Second'', VendorAlternateName = ''Second Inc''\<rparr>] \<and>
   loadedMap noTables dupSource ''AABBCC'' =
     Some \<lparr>OUI = ''AABBCC'', VendorName = ''Second'', VendorAlternateName = ''Second Inc''\<rparr> \<and>
   GetOUI noTables (loadedOUIs noTables dupSource) ''AABBCC'' =
     Some \<lparr>OUI = ''AABBCC'', VendorName = ''First'', VendorAlternateName = ''First Inc''\<rparr>"
  by code_simp

text \<open>White space in the pattern includes line breaks. Where nothing follows
  \<^verbatim>\<open>(base 16)\<close> on its line, the match runs on and takes the next line as the
  alternate name; a header on that line then begins no match of its own.\<close>

lemma runOnSource_loaded:
  "FindAllIndexed ouiExp runOnSource =
     [(0, [''AA-BB-CC (hex) Foo\<newline>AABBCC (base 16)\<newline>DD-EE-FF (hex) Bar'',
           ''AA-BB-CC'', ''-CC'', ''Foo'', ''AABBCC'', ''DD-EE-FF (hex) Bar''])] \<and>
   loadedOUIs noTables runOnSource =
     [\<lparr>OUI = ''AABBCC'', VendorName = ''Foo'', VendorAlternateName = ''DD-EE-FF (hex) Bar''\<rparr>]"
  by code_simp

lemma NewOUI_unparsable: "\<not> prefixParses oui \<Longrightarrow> NewOUI U oui vendorName vendorAlternateName = Fatal"
  by (simp add: NewOUI_def prefixParses_def split: sum.splits)

text \<open>The loop itself would end the process on a match whose prefix does not parse.\<close>

lemma loadMatches_unparsable:
  assumes "length match = 6" and "\<not> prefixParses (match ! 4)"
  shows "loadMatches U (match # matches) st = Fatal"
  using assms
  by (cases st)
     (simp add: loadMatch_def SubexpIndex_ouiExp indexAt_def andThen_def NewOUI_unparsable)

lemma sampleSource_entries:
  "map (entryOf noTables) (FindAllStringSubmatch ouiExp sampleSource) =
     [\<lparr>OUI = ''ACDE48'', VendorName = ''Private'', VendorAlternateName = ''Private''\<rparr>,
      \<lparr>OUI = ''002272'', VendorName = ''American Micro-Fuel'',
         VendorAlternateName = ''American Micro-Fuel Device Corp.''\<rparr>]"
  by code_simp



section \<open>The claims\<close>

subsection \<open>Loading\<close>

text \<open>
  C1. During load, a record whose prefix does not parse as a base-16 integer is rejected
  and skipped, and loading continues with the records after it; a malformed prefix never
  aborts the load or ends the process.

  For every readable source and every earlier value of \<^verbatim>\<open>allOUIs\<close>,
  \<^verbatim>\<open>makeMACHashMap\<close> returns: it neither ends the process nor panics. The entries it
  appends are those of the matches of the pattern, all of them and in their order, and
  the prefix of each one parses. A record whose prefix is not six hexadecimal digits
  is not a match of the pattern, so it is passed over and the records after it are
  loaded. (\<^verbatim>\<open>NewOUI\<close> itself ends the process on a prefix that does not parse, and so
  would the loop, see \<open>NewOUI_unparsable\<close> and \<open>loadMatches_unparsable\<close>; the
  pattern gives the loop no such prefix.)
\<close>

theorem load_skips_unparsable_prefix:
  "\<exists>results loaded.
     makeMACHashMap U (Some src) allOUIs = Returned (results, allOUIs @ loaded) \<and>
     loaded = map (entryOf U) (FindAllStringSubmatch ouiExp src) \<and>
     list_all (\<lambda>e. prefixParses (OUI e)) loaded"
proof -
  have v: "list_all validMatch (FindAllStringSubmatch ouiExp src)"
    by (rule FindAllStringSubmatch_valid)
  from loadMatches_valid [OF v, of U Map.empty allOUIs] obtain results where
    "makeMACHashMap U (Some src) allOUIs =
       Returned (results, allOUIs @ map (entryOf U) (FindAllStringSubmatch ouiExp src))"
    by (auto simp: makeMACHashMap_def)
  moreover have "list_all (\<lambda>e. prefixParses (OUI e)) (map (entryOf U) (FindAllStringSubmatch ouiExp src))"
    using v by (auto simp: list_all_iff entryOf_def validMatch_def hex6_parses)
  ultimately show ?thesis by blast
qed

text \<open>The record with the prefix \<^verbatim>\<open>GGGGGG\<close> of \<open>sampleSource\<close> is skipped and the
  record after it is loaded.\<close>

theorem load_skips_unparsable_prefix_witness:
  "\<exists>results. makeMACHashMap noTables (Some sampleSource) [] =
     Returned (results,
       [\<lparr>OUI = ''ACDE48'', VendorName = ''Private'', VendorAlternateName = ''Private''\<rparr>,
        \<lparr>OUI = ''002272'', VendorName = ''American Micro-Fuel'',
           VendorAlternateName = ''American Micro-Fuel Device Corp.''\<rparr>])"
  using load_skips_unparsable_prefix [of noTables sampleSource "[]"]
  by (auto simp: sampleSource_entries)




subsection \<open>Lookup by prefix\<close>

text \<open>
  C2. For every prefix present in the loaded registry, \<^verbatim>\<open>GetOUI\<close> returns the entry
  with that prefix whatever the case of the input, because the stored prefixes are in
  canonical upper case.

  The loader stores the prefix as the file has it, and the pattern admits the digits
  \<^verbatim>\<open>a-f\<close>; only the argument of \<^verbatim>\<open>GetOUI\<close> is upper-cased. The registry loaded from
  \<open>lowerSource\<close> lists the entry with the prefix \<^verbatim>\<open>aabbcc\<close>, and \<^verbatim>\<open>GetOUI\<close> finds
  it neither under \<^verbatim>\<open>aabbcc\<close> nor under \<^verbatim>\<open>AABBCC\<close>. (For an entry whose prefix is
  the upper-case form of the argument the lookup succeeds, whatever the case of the
  argument: \<open>GetOUI_finds_upper_case_prefix\<close>; an entry whose prefix has a
  lower-case letter is returned for no ASCII argument:
  \<open>GetOUI_never_lower_case_prefix\<close>.)
\<close>

theorem lower_case_prefix_never_found:
  "ListOUIs (loadedOUIs noTables lowerSource) =
     [\<lparr>OUI = ''aabbcc'', VendorName = ''Acme'', VendorAlternateName = ''Acme Inc''\<rparr>] \<and>
   GetOUI noTables (loadedOUIs noTables lowerSource) ''aabbcc'' = None \<and>
   GetOUI noTables (loadedOUIs noTables lowerSource) ''AABBCC'' = None"
  by code_simp

text \<open>
  C4. Round trip: every entry of the sequence \<^verbatim>\<open>ListOUIs\<close> returns is returned by
  \<^verbatim>\<open>GetOUI\<close> applied to the entry's own prefix.

  As stated the claim fails where two records have one prefix: the loader keeps both,
  and \<^verbatim>\<open>GetOUI\<close> returns the first entry for the prefix of the second.
\<close>

theorem get_own_prefix_of_duplicate:
  "\<lparr>OUI = ''AABBCC'', VendorName = ''Second'', VendorAlternateName = ''Second Inc''\<rparr>
     \<in> set (ListOUIs (loadedOUIs noTables dupSource)) \<and>
   GetOUI noTables (loadedOUIs noTables dupSource) ''AABBCC'' =
     Some \<lparr>OUI = ''AABBCC'', VendorName = ''First'', VendorAlternateName = ''First Inc''\<rparr> \<and>
   GetOUI noTables (loadedOUIs noTables dupSource) ''AABBCC'' \<noteq>
     Some \<lparr>OUI = ''AABBCC'', VendorName = ''Second'', VendorAlternateName = ''Second Inc''\<rparr>"
  by code_simp

text \<open>
  C4, amended. An entry of the sequence \<^verbatim>\<open>ListOUIs\<close> returns whose prefix is its own
  upper-case form, and before which no entry has the same prefix, is returned by
  \<^verbatim>\<open>GetOUI\<close> applied to its own prefix.
\<close>

theorem get_own_prefix_first_entry:
  assumes "i < length allOUIs"
    and "ToUpper U (OUI (allOUIs ! i)) = OUI (allOUIs ! i)"
    and "\<forall>j<i. OUI (allOUIs ! j) \<noteq> OUI (allOUIs ! i)"
  shows "GetOUI U allOUIs (OUI (ListOUIs allOUIs ! i)) = Some (ListOUIs allOUIs ! i)"
  using assms
proof (induction allOUIs arbitrary: i)
  case Nil
  then show ?case by simp
next
  case (Cons a allOUIs)
  show ?case
  proof (cases i)
    case 0
    with Cons.prems show ?thesis by (simp add: ListOUIs_def)
  next
    case (Suc k)
    with Cons.prems have k: "k < length allOUIs"
      and u: "ToUpper U (OUI (allOUIs ! k)) = OUI (allOUIs ! k)"
      and a: "OUI a \<noteq> OUI (allOUIs ! k)"
      and f: "\<forall>j<k. OUI (allOUIs ! j) \<noteq> OUI (allOUIs ! k)"
      by auto
    from Cons.IH [OF k u f] a u Suc show ?thesis by (simp add: ListOUIs_def)
  qed
qed

text \<open>The second entry of the registry loaded from \<open>sampleSource\<close>.\<close>

theorem get_own_prefix_first_entry_witness:
  "GetOUI noTables (loadedOUIs noTables sampleSource) ''002272'' =
     Some \<lparr>OUI = ''002272'', VendorName = ''American Micro-Fuel'',
            VendorAlternateName = ''American Micro-Fuel Device Corp.''\<rparr>"
proof -
  let ?xs = "[\<lparr>OUI = ''ACDE48'', VendorName = ''Private'', VendorAlternateName = ''Private''\<rparr>,
      \<lparr>OUI = ''002272'', VendorName = ''American Micro-Fuel'',
         VendorAlternateName = ''American Micro-Fuel Device Corp.''\<rparr>]"
  have u: "ToUpper noTables ''002272'' = ''002272''" by code_simp
  have "GetOUI noTables ?xs (OUI (ListOUIs ?xs ! 1)) = Some (ListOUIs ?xs ! 1)"
    by (rule get_own_prefix_first_entry) (simp_all add: u)
  then show ?thesis by (simp add: sampleSource_loaded ListOUIs_def)
qed

text \<open>
  C10. When the source has two or more records with one prefix, \<^verbatim>\<open>GetOUI\<close> returns
  the entry loaded first, the map built by the loader holds the entry loaded last, and
  both entries are in the sequence \<^verbatim>\<open>ListOUIs\<close> returns.

  Both entries are listed and the map holds the last one (\<open>loadedMap_last_wins\<close>), and
  \<^verbatim>\<open>GetOUI\<close> returns the first entry whose prefix is the upper-cased argument
  (\<open>GetOUI_find\<close>, \<open>upper_case_duplicates\<close>). Where the shared prefix has a lower-case
  letter, as in \<open>lowerDupSource\<close>, \<^verbatim>\<open>GetOUI\<close> returns neither entry.
\<close>

theorem lower_case_duplicates_not_found:
  "ListOUIs (loadedOUIs noTables lowerDupSource) =
     [\<lparr>OUI = ''aabbcc'', VendorName = ''First'', VendorAlternateName = ''First Inc''\<rparr>,
      \<lparr>OUI = ''aabbcc'', VendorName = ''Second'', VendorAlternateName = ''Second Inc''\<rparr>] \<and>
   loadedMap noTables lowerDupSource ''aabbcc'' =
     Some \<lparr>OUI = ''aabbcc'', VendorName = ''Second'', VendorAlternateName = ''Second Inc''\<rparr> \<and>
   GetOUI noTables (loadedOUIs noTables lowerDupSource) ''aabbcc'' = None"
  by code_simp


subsection \<open>Resolving an address\<close>

text \<open>
  C3. The normalization step of \<^verbatim>\<open>GetVendorFromMAC\<close> removes every character that is
  not an ASCII letter or digit, so the normalized string consists only of ASCII letters
  and digits.

  As stated the claim fails: the class of the pattern holds the space, so a space stays.
  The address below keeps its space, has twelve characters and passes the check of the
  length.
\<close>

theorem normalize_keeps_space:
  "replaceAllMac ''AABBCC 11223'' = ''AABBCC 11223'' \<and>
   normalizeMac ''AABBCC 11223'' = (''AABBCC 11223'', None) \<and>
   \<not> list_all isAlnum (fst (normalizeMac ''AABBCC 11223''))"
  by code_simp

text \<open>
  C3, amended. The normalization step removes every character that is not an ASCII
  letter, a digit or a space and keeps the others in their order, so the normalized
  string consists only of ASCII letters, digits and spaces.
\<close>

theorem normalize_keeps_class:
  "replaceAllMac mac = filter (\<lambda>c. isAlnum c \<or> c = CHR '' '') mac \<and>
   list_all (\<lambda>c. isAlnum c \<or> c = CHR '' '') (replaceAllMac mac) \<and>
   list_all (\<lambda>c. isAlnum c \<or> c = CHR '' '') (fst (normalizeMac mac))"
proof -
  have c: "macClass = (\<lambda>c. isAlnum c \<or> c = CHR '' '')"
    by (auto simp: macClass_def isAlnum_def)
  show ?thesis
    by (simp add: normalizeMac_def replaceAllMac_filter c Let_def list_all_iff)
qed

theorem normalize_keeps_class_witness:
  "replaceAllMac ''ac:de:48 11.22-33'' = ''acde48 112233'' \<and>
   list_all (\<lambda>c. isAlnum c \<or> c = CHR '' '') (replaceAllMac ''ac:de:48 11.22-33'')"
proof -
  have "replaceAllMac ''ac:de:48 11.22-33'' = ''acde48 112233''" by code_simp
  with normalize_keeps_class [of "''ac:de:48 11.22-33''"] show ?thesis by simp
qed

text \<open>
  C5. For every address whose normalized form does not have length 12,
  \<^verbatim>\<open>GetVendorFromMAC\<close> returns the result for an address that is not found, the empty
  string; it raises no fatal error and does not end the process.

  The normalized form is the string the replacement leaves, \<open>replaceAllMac mac\<close>, in
  which a space of the address counts (\<open>address_with_space_resolves\<close>). The call
  returns: it neither panics nor ends the process.
\<close>

theorem resolve_rejects_other_lengths:
  "length (replaceAllMac mac) \<noteq> 12 \<Longrightarrow> GetVendorFromMAC U allOUIs mac = Returned ''''"
  by (simp add: GetVendorFromMAC_def normalizeMac_def Let_def)

theorem resolve_rejects_other_lengths_witness:
  "length (replaceAllMac ''AC-DE-48'') \<noteq> 12 \<and>
   GetVendorFromMAC noTables [privateEntry] ''AC-DE-48'' = Returned ''''"
proof -
  have l: "length (replaceAllMac ''AC-DE-48'') \<noteq> 12" by code_simp
  from l resolve_rejects_other_lengths [OF l, of noTables "[privateEntry]"] show ?thesis by simp
qed

text \<open>
  C6. For every address whose normalized form has length 12, \<^verbatim>\<open>GetVendorFromMAC\<close>
  takes the first 6 characters of the normalized string, passes them to \<^verbatim>\<open>GetOUI\<close>,
  and returns the vendor name of the entry found, or the empty string when none is
  found.

  The slice \<^verbatim>\<open>macToFind[:6]\<close> is in range, so the call returns.
\<close>

theorem resolve_is_get_on_first_six:
  "length (replaceAllMac mac) = 12 \<Longrightarrow>
   GetVendorFromMAC U allOUIs mac =
     Returned (case GetOUI U allOUIs (take 6 (replaceAllMac mac)) of
                 Some e \<Rightarrow> VendorName e
               | None \<Rightarrow> '''')"
  by (simp add: GetVendorFromMAC_def normalizeMac_def sliceTo_def andThen_def Let_def
      split: option.splits)

theorem resolve_is_get_on_first_six_witness:
  "length (replaceAllMac ''ac:de:48:11:22:33'') = 12 \<and>
   GetOUI noTables [privateEntry] (take 6 (replaceAllMac ''ac:de:48:11:22:33'')) = Some privateEntry \<and>
   GetVendorFromMAC noTables [privateEntry] ''ac:de:48:11:22:33'' = Returned ''Private''"
proof -
  have l: "length (replaceAllMac ''ac:de:48:11:22:33'') = 12" by code_simp
  have g: "GetOUI noTables [privateEntry] (take 6 (replaceAllMac ''ac:de:48:11:22:33'')) = Some privateEntry"
    by code_simp
  from resolve_is_get_on_first_six [OF l, of noTables "[privateEntry]"] l g
  show ?thesis by (simp add: privateEntry_def)
qed

text \<open>
  C7. For any loaded registry, \<^verbatim>\<open>GetVendorFromMAC\<close> returns the same result for
  \<^verbatim>\<open>AA-BB-CC-11-22-33\<close>, \<^verbatim>\<open>aa:bb:cc:11:22:33\<close> and \<^verbatim>\<open>AABBCC112233\<close>.
\<close>

theorem resolve_same_for_delimiters_and_case:
  "GetVendorFromMAC U allOUIs ''AA-BB-CC-11-22-33'' = GetVendorFromMAC U allOUIs ''aa:bb:cc:11:22:33'' \<and>
   GetVendorFromMAC U allOUIs ''aa:bb:cc:11:22:33'' = GetVendorFromMAC U allOUIs ''AABBCC112233''"
proof -
  have g: "GetOUI U allOUIs ''aabbcc'' = GetOUI U allOUIs ''AABBCC''"
    by (simp add: GetOUI_find ToUpper_examples)
  show ?thesis
    by (simp add: GetVendorFromMAC_12 replaceAllMac_examples g)
qed

theorem resolve_same_for_delimiters_and_case_witness:
  "GetVendorFromMAC noTables [\<lparr>OUI = ''AABBCC'', VendorName = ''Acme'', VendorAlternateName = ''Acme Inc''\<rparr>]
     ''AA-BB-CC-11-22-33'' = Returned ''Acme'' \<and>
   GetVendorFromMAC noTables [\<lparr>OUI = ''AABBCC'', VendorName = ''Acme'', VendorAlternateName = ''Acme Inc''\<rparr>]
     ''aa:bb:cc:11:22:33'' = Returned ''Acme'' \<and>
   GetVendorFromMAC noTables [\<lparr>OUI = ''AABBCC'', VendorName = ''Acme'', VendorAlternateName = ''Acme Inc''\<rparr>]
     ''AABBCC112233'' = Returned ''Acme''"
proof -
  let ?r = "[\<lparr>OUI = ''AABBCC'', VendorName = ''Acme'', VendorAlternateName = ''Acme Inc''\<rparr>]"
  have "GetVendorFromMAC noTables ?r ''AABBCC112233'' = Returned ''Acme''" by code_simp
  with resolve_same_for_delimiters_and_case [of noTables ?r] show ?thesis by simp
qed

text \<open>
  C9. The result of \<^verbatim>\<open>GetVendorFromMAC\<close> for an address that is not found is the
  empty string, and an entry whose vendor name is empty after trimming makes it return
  the empty string too: for an address that matches such an entry the result is the
  one for an address that is not found.

  Take an address of normalized length 12, a registry where \<^verbatim>\<open>GetOUI\<close> finds for its
  prefix candidate an entry with the empty vendor name, and any registry where it
  finds none: the two results are the same, the empty string. (\<^verbatim>\<open>NewOUI\<close> stores the
  empty name for a name of blanks, \<open>TrimSpace_blank\<close>, and the loader makes such an
  entry of \<open>namelessSource\<close>.)
\<close>

theorem empty_vendor_name_looks_like_not_found:
  assumes "length (replaceAllMac mac) = 12"
    and "GetOUI U allOUIs (take 6 (replaceAllMac mac)) = Some e"
    and "VendorName e = ''''"
    and "GetOUI U others (take 6 (replaceAllMac mac)) = None"
  shows "GetVendorFromMAC U others mac = Returned '''' \<and>
         GetVendorFromMAC U allOUIs mac = GetVendorFromMAC U others mac"
  using assms by (simp add: GetVendorFromMAC_12)

theorem empty_vendor_name_looks_like_not_found_witness:
  "GetOUI noTables (loadedOUIs noTables namelessSource) (take 6 (replaceAllMac ''AA-BB-CC-00-00-01'')) =
     Some \<lparr>OUI = ''AABBCC'', VendorName = '''', VendorAlternateName = ''Nameless Inc''\<rparr> \<and>
   GetVendorFromMAC noTables [] ''AA-BB-CC-00-00-01'' = Returned '''' \<and>
   GetVendorFromMAC noTables (loadedOUIs noTables namelessSource) ''AA-BB-CC-00-00-01'' =
     GetVendorFromMAC noTables [] ''AA-BB-CC-00-00-01''"
proof -
  let ?e = "\<lparr>OUI = ''AABBCC'', VendorName = '''', VendorAlternateName = ''Nameless Inc''\<rparr>"
  have l: "length (replaceAllMac ''AA-BB-CC-00-00-01'') = 12" by code_simp
  have g: "GetOUI noTables (loadedOUIs noTables namelessSource)
             (take 6 (replaceAllMac ''AA-BB-CC-00-00-01'')) = Some ?e"
    by code_simp
  have v: "VendorName ?e = ''''" by simp
  have n: "GetOUI noTables [] (take 6 (replaceAllMac ''AA-BB-CC-00-00-01'')) = None" by simp
  from empty_vendor_name_looks_like_not_found [OF l g v n] g show ?thesis by simp
qed

end
